theory Spec2Isabelle
  imports Complex_Main
begin

section \<open>The bounded random redirector of \<open>src/index.js\<close>\<close>

text \<open>
  The script builds a pseudo-random URL from a static vocabulary and the ambient random
  source, and navigates to it on page load, at most three times per ten-second window;
  the budget is a counter kept in \<open>localStorage\<close>.

  Conventions of the embedding.
  \<^item> \<open>Math.random()\<close> is a draw from a fixed sequence \<open>g :: nat \<Rightarrow> real\<close>; the position of
    the next draw is the state that the generators thread through. The contract of the
    random source (every draw lies in \<open>[0, 1)\<close>) is the predicate \<open>valid_rng\<close>.
    Arithmetic on draws is exact real arithmetic; the rounding of IEEE doubles is not
    modelled. The script floors the product of a draw and a length after it has been
    rounded to a double, so for a draw just below a multiple of \<open>1/n\<close> the script can
    take the index above the one of \<open>random_index\<close>. The properties below are about the
    range of an index, not about which index a given draw selects; the examples use the
    draw \<open>1/2\<close>, whose products are exact.
  \<^item> A JavaScript string is a \<open>string\<close>; \<open>undefined\<close> (an array read out of range) is
    \<open>None\<close> of \<open>string option\<close>.
  \<^item> A JavaScript number that holds the redirect count is \<open>NaN\<close> or an exact integer
    (an integer beyond \<open>2^53\<close>, which a double would round, is kept as it is; rounding is
    monotone, so the comparison with 3 is the same, but the string that the script writes
    for a count below \<open>-2^53\<close> can differ from the one of the model).
  \<^item> The browser state that the script touches is the record \<open>world\<close>.
\<close>

subsection \<open>Configuration\<close>

record domain_config =
  topLevelDomains :: "string list"
  subDomainPrefixes :: "string list"
  subDomainRandomLength_min :: int
  subDomainRandomLength_max :: int
  includeWwwAsSpecial :: bool

definition domainConfig :: domain_config where
  "domainConfig =
     \<lparr> topLevelDomains = [''example.com'', ''demo.org'', ''mysite.net'', ''product.io''],
       subDomainPrefixes =
         [''www'', ''blog'', ''app'', ''web'', ''dev'', ''api'', ''beta'', ''alpha'',
          ''test'', ''store'', ''shop'', ''cdn'', ''image'', ''data'', ''static'',
          ''report'', ''admin'', ''panel'', ''user'', ''member'', ''service''],
       subDomainRandomLength_min = 3,
       subDomainRandomLength_max = 6,
       includeWwwAsSpecial = True \<rparr>"

subsection \<open>The random source and the JavaScript primitives used\<close>

type_synonym rng = "nat \<Rightarrow> real"

definition valid_rng :: "rng \<Rightarrow> bool" where
  "valid_rng g = (\<forall>n. 0 \<le> g n \<and> g n < 1)"

text \<open>\<open>Math.random()\<close>: the draw at the current position, and the next position.\<close>

definition math_random :: "rng \<Rightarrow> nat \<Rightarrow> real \<times> nat" where
  "math_random g pos = (g pos, Suc pos)"

text \<open>\<open>Math.floor(Math.random() * n)\<close>.\<close>

definition random_index :: "rng \<Rightarrow> int \<Rightarrow> nat \<Rightarrow> int \<times> nat" where
  "random_index g n pos = (let (r, pos') = math_random g pos in (\<lfloor>r * of_int n\<rfloor>, pos'))"

text \<open>\<open>s.charAt(i)\<close>: the one-character string at \<open>i\<close>, the empty string out of range.\<close>

definition charAt :: "string \<Rightarrow> int \<Rightarrow> string" where
  "charAt s i = (if 0 \<le> i \<and> i < int (length s) then [s ! nat i] else [])"

text \<open>\<open>xs[i]\<close> on an array: \<open>undefined\<close> out of range.\<close>

definition js_index :: "'a list \<Rightarrow> int \<Rightarrow> 'a option" where
  "js_index xs i = (if 0 \<le> i \<and> i < int (length xs) then Some (xs ! nat i) else None)"

text \<open>
  \<open>xs.splice(start, 0, x)\<close>: insertion of \<open>x\<close> before position \<open>start\<close>, where a negative
  \<open>start\<close> counts from the end and the result is clamped to \<open>[0, length]\<close>.
\<close>

definition js_splice_insert :: "'a list \<Rightarrow> int \<Rightarrow> 'a \<Rightarrow> 'a list" where
  "js_splice_insert xs start x =
     (let len = int (length xs);
          k = nat (if start < 0 then max (len + start) 0 else min start len)
      in take k xs @ [x] @ drop k xs)"

text \<open>\<open>xs.join(sep)\<close>: an \<open>undefined\<close> element contributes the empty string.\<close>

definition js_elem_str :: "string option \<Rightarrow> string" where
  "js_elem_str x = (case x of None \<Rightarrow> [] | Some s \<Rightarrow> s)"

fun js_join :: "string \<Rightarrow> string option list \<Rightarrow> string" where
  "js_join sep [] = []"
| "js_join sep [x] = js_elem_str x"
| "js_join sep (x # y # ys) = js_elem_str x @ sep @ js_join sep (y # ys)"

text \<open>A value interpolated into a template literal: \<open>undefined\<close> prints as its name.\<close>

definition template_str :: "string option \<Rightarrow> string" where
  "template_str x = (case x of None \<Rightarrow> ''undefined'' | Some s \<Rightarrow> s)"

subsection \<open>\<open>generateRandomString\<close>\<close>

definition characters :: string where
  "characters = ''abcdefghijklmnopqrstuvwxyz0123456789''"

text \<open>
  The \<open>for\<close> loop of \<open>generateRandomString\<close>, with its variables \<open>i\<close> and \<open>result\<close>
  and the position in the random sequence.
\<close>

function generateRandomString_loop ::
  "rng \<Rightarrow> int \<Rightarrow> int \<Rightarrow> string \<Rightarrow> nat \<Rightarrow> string \<times> nat" where
  "generateRandomString_loop g len i result pos =
     (if i < len then
        (let (k, pos') = random_index g (int (length characters)) pos
         in generateRandomString_loop g len (i + 1) (result @ charAt characters k) pos')
      else (result, pos))"
  by pat_completeness auto
termination
  by (relation "measure (\<lambda>(g, len, i, result, pos). nat (len - i))") auto

declare generateRandomString_loop.simps [simp del]

definition generateRandomString :: "rng \<Rightarrow> int \<Rightarrow> nat \<Rightarrow> string \<times> nat" where
  "generateRandomString g len pos = generateRandomString_loop g len 0 [] pos"

subsection \<open>\<open>generateRandomSubdomain\<close>\<close>

text \<open>
  The body of \<open>generateRandomSubdomain\<close> is three steps on the array \<open>subDomainParts\<close>
  followed by \<open>join('-')\<close>. Each step is a function of its own here, taking the array and
  the position in the random sequence.

  Step 1 (lines 51-52): push a prefix chosen from the configured list.
\<close>

definition push_randomPrefix ::
  "domain_config \<Rightarrow> rng \<Rightarrow> string option list \<Rightarrow> nat \<Rightarrow> string option list \<times> nat" where
  "push_randomPrefix cfg g subDomainParts pos =
     (let prefixes = subDomainPrefixes cfg;
          (i, pos') = random_index g (int (length prefixes)) pos
      in (subDomainParts @ [js_index prefixes i], pos'))"

text \<open>Step 2 (lines 55-58): if the next draw exceeds 0.3, push a random string.\<close>

definition push_randomPart ::
  "domain_config \<Rightarrow> rng \<Rightarrow> string option list \<Rightarrow> nat \<Rightarrow> string option list \<times> nat" where
  "push_randomPart cfg g subDomainParts pos =
     (let mn = subDomainRandomLength_min cfg;
          mx = subDomainRandomLength_max cfg;
          (r, pos1) = math_random g pos
      in if r > 3 / 10 then
           (let (k, pos2) = random_index g (mx - mn + 1) pos1;
                randomLength = k + mn;
                (s, pos3) = generateRandomString g randomLength pos2
            in (subDomainParts @ [Some s], pos3))
         else (subDomainParts, pos1))"

text \<open>
  Step 3 (lines 61-64): if the flag is set and the next draw is below 0.2, splice
  \<open>'www'\<close> in at a random index. The \<open>&&\<close> is short-circuit: with the flag off no draw
  is made.
\<close>

definition insert_www ::
  "domain_config \<Rightarrow> rng \<Rightarrow> string option list \<Rightarrow> nat \<Rightarrow> string option list \<times> nat" where
  "insert_www cfg g subDomainParts pos =
     (if includeWwwAsSpecial cfg then
        (let (r, pos1) = math_random g pos
         in if r < 2 / 10 then
              (let (wwwIndex, pos2) = random_index g (int (length subDomainParts) + 1) pos1
               in (js_splice_insert subDomainParts wwwIndex (Some ''www''), pos2))
            else (subDomainParts, pos1))
      else (subDomainParts, pos))"

text \<open>The array as it stands when the third step begins.\<close>

definition parts_before_www ::
  "domain_config \<Rightarrow> rng \<Rightarrow> nat \<Rightarrow> string option list \<times> nat" where
  "parts_before_www cfg g pos =
     (let (parts1, pos1) = push_randomPrefix cfg g [] pos
      in push_randomPart cfg g parts1 pos1)"

definition generateRandomSubdomain :: "domain_config \<Rightarrow> rng \<Rightarrow> nat \<Rightarrow> string \<times> nat" where
  "generateRandomSubdomain cfg g pos =
     (let (parts2, pos2) = parts_before_www cfg g pos;
          (parts3, pos3) = insert_www cfg g parts2 pos2
      in (js_join ''-'' parts3, pos3))"

subsection \<open>\<open>getRandomTopLevelDomain\<close> and \<open>buildRedirectURL\<close>\<close>

definition getRandomTopLevelDomain ::
  "domain_config \<Rightarrow> rng \<Rightarrow> nat \<Rightarrow> string option \<times> nat" where
  "getRandomTopLevelDomain cfg g pos =
     (let topDomains = topLevelDomains cfg;
          (i, pos') = random_index g (int (length topDomains)) pos
      in (js_index topDomains i, pos'))"

definition buildRedirectURL :: "domain_config \<Rightarrow> rng \<Rightarrow> nat \<Rightarrow> string \<times> nat" where
  "buildRedirectURL cfg g pos =
     (let (subdomainPart, pos1) = generateRandomSubdomain cfg g pos;
          (topDomain, pos2) = getRandomTopLevelDomain cfg g pos1;
          (r, pos3) = math_random g pos2;
          protocol = (if r > 5 / 10 then ''https'' else ''http'')
      in (protocol @ ''://'' @ subdomainPart @ ''.'' @ template_str topDomain, pos3))"

subsection \<open>Numbers read from and written to storage\<close>

datatype js_number = NaN | Num int

text \<open>
  \<open>parseInt(s, 10)\<close>: leading white space is skipped, one sign is read, then the longest
  run of decimal digits; no digit at all gives \<open>NaN\<close>. The white space characters are
  those with a code below 256.
\<close>

definition is_js_whitespace :: "char \<Rightarrow> bool" where
  "is_js_whitespace c = ((of_char c :: nat) \<in> {9, 10, 11, 12, 13, 32, 160})"

definition is_digit :: "char \<Rightarrow> bool" where
  "is_digit c = (48 \<le> (of_char c :: nat) \<and> (of_char c :: nat) \<le> 57)"

definition digits_value :: "string \<Rightarrow> int" where
  "digits_value ds = foldl (\<lambda>acc c. 10 * acc + (int (of_char c) - 48)) 0 ds"

definition parseInt10 :: "string \<Rightarrow> js_number" where
  "parseInt10 inputString =
     (let s = dropWhile is_js_whitespace inputString;
          sign = (if s \<noteq> [] \<and> hd s = CHR ''-'' then - 1 else 1 :: int);
          s' = (if s \<noteq> [] \<and> (hd s = CHR ''+'' \<or> hd s = CHR ''-'') then tl s else s);
          z = takeWhile is_digit s'
      in if z = [] then NaN else Num (sign * digits_value z))"

text \<open>\<open>a < b\<close> on numbers: false as soon as one side is \<open>NaN\<close>.\<close>

definition js_lt :: "js_number \<Rightarrow> js_number \<Rightarrow> bool" where
  "js_lt a b = (case (a, b) of (Num x, Num y) \<Rightarrow> x < y | _ \<Rightarrow> False)"

definition js_add :: "js_number \<Rightarrow> js_number \<Rightarrow> js_number" where
  "js_add a b = (case (a, b) of (Num x, Num y) \<Rightarrow> Num (x + y) | _ \<Rightarrow> NaN)"

text \<open>
  \<open>n.toString()\<close> for an integer: its decimal digits, after a minus sign when it is
  negative. \<open>digit_char\<close> is only applied to a digit below ten.
\<close>

definition digit_char :: "nat \<Rightarrow> char" where
  "digit_char d = ''0123456789'' ! d"

fun nat_toString :: "nat \<Rightarrow> string" where
  "nat_toString n =
     (if n < 10 then [digit_char n] else nat_toString (n div 10) @ [digit_char (n mod 10)])"

declare nat_toString.simps [simp del]

definition js_toString :: "js_number \<Rightarrow> string" where
  "js_toString x =
     (case x of
        NaN \<Rightarrow> ''NaN''
      | Num n \<Rightarrow> (if n < 0 then ''-'' @ nat_toString (nat (- n)) else nat_toString (nat n)))"

text \<open>\<open>v || d\<close> on a value that is \<open>null\<close> or a string: the empty string is falsy.\<close>

definition or_default :: "string option \<Rightarrow> string \<Rightarrow> string" where
  "or_default v d = (case v of None \<Rightarrow> d | Some s \<Rightarrow> if s = [] then d else s)"

subsection \<open>The browser state\<close>

datatype js_error = NavigationError string

datatype console_entry =
    Log_redirecting string
  | Error_redirect_failed js_error
  | Warn_max_redirects int

datatype callback = RemoveItem string

text \<open>
  \<open>localStorage\<close> is a map from keys to strings. \<open>timers\<close> holds the pending
  \<open>setTimeout\<close> callbacks with the time (in milliseconds) at which each is due, \<open>now\<close> is
  the clock, \<open>navigations\<close> lists the URLs that \<open>window.location.replace\<close> accepted, and
  \<open>random_pos\<close> is the position of the next draw of \<open>Math.random\<close>.
\<close>

record world =
  localStorage :: "string \<rightharpoonup> string"
  timers :: "(nat \<times> callback) list"
  now :: nat
  console :: "console_entry list"
  navigations :: "string list"
  random_pos :: nat

definition getItem :: "world \<Rightarrow> string \<Rightarrow> string option" where
  "getItem w key = localStorage w key"

definition setItem :: "string \<Rightarrow> string \<Rightarrow> world \<Rightarrow> world" where
  "setItem key v w = w\<lparr>localStorage := (localStorage w)(key \<mapsto> v)\<rparr>"

definition removeItem :: "string \<Rightarrow> world \<Rightarrow> world" where
  "removeItem key w = w\<lparr>localStorage := (localStorage w)(key := None)\<rparr>"

definition setTimeout :: "callback \<Rightarrow> nat \<Rightarrow> world \<Rightarrow> world" where
  "setTimeout cb delay w = w\<lparr>timers := timers w @ [(now w + delay, cb)]\<rparr>"

definition console_put :: "console_entry \<Rightarrow> world \<Rightarrow> world" where
  "console_put e w = w\<lparr>console := console w @ [e]\<rparr>"

text \<open>
  \<open>window.location.replace(url)\<close> either throws or records the navigation; which URLs
  make it throw is a parameter of the model.
\<close>

definition location_replace :: "(string \<Rightarrow> bool) \<Rightarrow> string \<Rightarrow> world \<Rightarrow> js_error + world" where
  "location_replace throws url w =
     (if throws url then Inl (NavigationError url)
      else Inr (w\<lparr>navigations := navigations w @ [url]\<rparr>))"

subsection \<open>\<open>performRedirect\<close> and \<open>secureRedirect\<close>\<close>

definition performRedirect ::
  "domain_config \<Rightarrow> rng \<Rightarrow> (string \<Rightarrow> bool) \<Rightarrow> world \<Rightarrow> world" where
  "performRedirect cfg g throws w =
     (let (targetURL, pos') = buildRedirectURL cfg g (random_pos w);
          w1 = console_put (Log_redirecting targetURL) (w\<lparr>random_pos := pos'\<rparr>)
      in case location_replace throws targetURL w1 of
           Inr w2 \<Rightarrow> w2
         | Inl error \<Rightarrow> console_put (Error_redirect_failed error) w1)"

definition storageKey :: string where
  "storageKey = ''randomRedirectCount''"

definition maxRedirects :: int where
  "maxRedirects = 3"

definition read_redirectCount :: "world \<Rightarrow> js_number" where
  "read_redirectCount w = parseInt10 (or_default (getItem w storageKey) ''0'')"

definition secureRedirect ::
  "domain_config \<Rightarrow> rng \<Rightarrow> (string \<Rightarrow> bool) \<Rightarrow> world \<Rightarrow> world" where
  "secureRedirect cfg g throws w =
     (let redirectCount = read_redirectCount w
      in if js_lt redirectCount (Num maxRedirects) then
           performRedirect cfg g throws
             (setTimeout (RemoveItem storageKey) (10 * 1000)
               (setItem storageKey (js_toString (js_add redirectCount (Num 1))) w))
         else console_put (Warn_max_redirects maxRedirects) w)"

subsection \<open>Page loads and the passing of time\<close>

text \<open>
  The script registers \<open>secureRedirect\<close> for \<open>DOMContentLoaded\<close>, so a page load runs it
  once. When time passes, the callbacks that have become due run, earliest first, and
  leave the list of pending timers.

  A schedule is a list of page loads of this page and of waits, all on one \<open>world\<close>: the
  storage of the origin is shared by the loads. The timers of earlier loads stay pending
  in the model, although a browser drops them when the document that set them is
  unloaded; the model therefore allows every clearing of the counter that a browser allows.
\<close>

definition run_callback :: "callback \<Rightarrow> world \<Rightarrow> world" where
  "run_callback cb w = (case cb of RemoveItem key \<Rightarrow> removeItem key w)"

definition fire_due :: "world \<Rightarrow> world" where
  "fire_due w =
     (let due = filter (\<lambda>t. fst t \<le> now w) (timers w);
          pending = filter (\<lambda>t. \<not> fst t \<le> now w) (timers w)
      in fold (\<lambda>t. run_callback (snd t)) (sort_key fst due) (w\<lparr>timers := pending\<rparr>))"

definition elapse :: "nat \<Rightarrow> world \<Rightarrow> world" where
  "elapse dt w = fire_due (w\<lparr>now := now w + dt\<rparr>)"

datatype event = PageLoad | Elapse nat

fun step :: "domain_config \<Rightarrow> rng \<Rightarrow> (string \<Rightarrow> bool) \<Rightarrow> event \<Rightarrow> world \<Rightarrow> world" where
  "step cfg g throws PageLoad w = secureRedirect cfg g throws w"
| "step cfg g throws (Elapse dt) w = elapse dt w"

fun run :: "domain_config \<Rightarrow> rng \<Rightarrow> (string \<Rightarrow> bool) \<Rightarrow> event list \<Rightarrow> world \<Rightarrow> world" where
  "run cfg g throws [] w = w"
| "run cfg g throws (e # es) w = run cfg g throws es (step cfg g throws e w)"

text \<open>The number of page loads in a schedule, and the time it takes.\<close>

fun loads :: "event list \<Rightarrow> nat" where
  "loads [] = 0"
| "loads (PageLoad # es) = Suc (loads es)"
| "loads (Elapse dt # es) = loads es"

fun duration :: "event list \<Rightarrow> nat" where
  "duration [] = 0"
| "duration (PageLoad # es) = duration es"
| "duration (Elapse dt # es) = dt + duration es"

text \<open>A browser in which nothing has happened yet.\<close>

definition fresh_world :: world where
  "fresh_world =
     \<lparr> localStorage = Map.empty, timers = [], now = 0, console = [], navigations = [],
       random_pos = 0 \<rparr>"

subsection \<open>Character classes of the specification\<close>

text \<open>The lowercase alphanumeric alphabet \<open>a-z\<close>, \<open>0-9\<close>, by character code.\<close>

definition is_lower_alnum :: "char \<Rightarrow> bool" where
  "is_lower_alnum c =
     ((97 \<le> (of_char c :: nat) \<and> (of_char c :: nat) \<le> 122) \<or>
      (48 \<le> (of_char c :: nat) \<and> (of_char c :: nat) \<le> 57))"

text \<open>The class \<open>[a-z0-9-]\<close> of the characters allowed in a host label.\<close>

definition is_label_char :: "char \<Rightarrow> bool" where
  "is_label_char c = (is_lower_alnum c \<or> c = CHR ''-'')"

subsection \<open>Predicates used in the statements\<close>

text \<open>
  A vocabulary from which a host label can be built: both lists are non-empty and every
  prefix is a non-empty string over \<open>[a-z0-9-]\<close>.
\<close>

definition valid_vocabulary :: "domain_config \<Rightarrow> bool" where
  "valid_vocabulary cfg =
     (subDomainPrefixes cfg \<noteq> [] \<and> topLevelDomains cfg \<noteq> [] \<and>
      (\<forall>p \<in> set (subDomainPrefixes cfg). p \<noteq> [] \<and> (\<forall>c \<in> set p. is_label_char c)))"

text \<open>
  The storage entry holds the decimal string of \<open>k\<close>, or is absent for \<open>k = 0\<close>: the states
  that the script itself produces from an empty storage.
\<close>

definition counter_is :: "world \<Rightarrow> nat \<Rightarrow> bool" where
  "counter_is w k =
     (localStorage w storageKey = (if k = 0 then None else Some (js_toString (Num (int k)))))"

text \<open>Every pending timer is due later than \<open>t\<close>.\<close>

definition timers_after :: "world \<Rightarrow> nat \<Rightarrow> bool" where
  "timers_after w t = (\<forall>x \<in> set (timers w). t < fst x)"

text \<open>
  The invariant of the data model: the counter as the script reads it, when the entry is
  present, is a number between 0 and \<open>maxRedirects\<close>.
\<close>

definition counter_in_range :: "world \<Rightarrow> bool" where
  "counter_in_range w =
     (localStorage w storageKey \<noteq> None \<longrightarrow>
        (case read_redirectCount w of NaN \<Rightarrow> False | Num n \<Rightarrow> 0 \<le> n \<and> n \<le> maxRedirects))"

text \<open>Concrete inputs: a constant random sequence, two navigation behaviours, and a
  browser whose storage entry holds the string \<open>abc\<close>, or the string \<open>3\<close>.\<close>

definition half_draws :: rng where
  "half_draws n = 1 / 2"

definition never_throws :: "string \<Rightarrow> bool" where
  "never_throws url = False"

definition always_throws :: "string \<Rightarrow> bool" where
  "always_throws url = True"

definition abc_world :: world where
  "abc_world = fresh_world\<lparr>localStorage := [storageKey \<mapsto> ''abc'']\<rparr>"

definition three_world :: world where
  "three_world = fresh_world\<lparr>localStorage := [storageKey \<mapsto> ''3'']\<rparr>"

section \<open>Properties\<close>

subsection \<open>The random source\<close>

lemma random_index_snd: "snd (random_index g n pos) = Suc pos"
  by (simp add: random_index_def math_random_def)

lemma random_index_range:
  assumes "valid_rng g" and "0 < n"
  shows "0 \<le> fst (random_index g n pos) \<and> fst (random_index g n pos) < n"
proof -
  have r: "0 \<le> g pos" "g pos < 1" using assms(1) by (simp_all add: valid_rng_def)
  have n: "0 < (of_int n :: real)" using assms(2) by simp
  have "0 \<le> g pos * of_int n" using r n by simp
  moreover have "g pos * of_int n < of_int n" using r n by simp
  ultimately show ?thesis
    by (simp add: random_index_def math_random_def floor_less_iff)
qed

subsection \<open>Random tokens\<close>

lemma characters_alnum: "\<forall>c \<in> set characters. is_lower_alnum c"
  by (simp add: characters_def is_lower_alnum_def)

lemma charAt_characters:
  assumes "0 \<le> k" and "k < 36"
  shows "length (charAt characters k) = 1 \<and> set (charAt characters k) \<subseteq> set characters"
proof -
  have len: "length characters = 36" by (simp add: characters_def)
  have "nat k < length characters" using assms len by simp
  then have "characters ! nat k \<in> set characters" by (rule nth_mem)
  then show ?thesis using assms len by (simp add: charAt_def)
qed

text \<open>
  The loop invariant: each iteration appends one character of the alphabet and makes one
  draw, so from \<open>i\<close> the loop adds \<open>len - i\<close> characters (none when \<open>len \<le> i\<close>).
\<close>

lemma generateRandomString_loop_props:
  shows "valid_rng g \<Longrightarrow>
         length (fst (generateRandomString_loop g len i result pos)) = length result + nat (len - i)
       \<and> set (fst (generateRandomString_loop g len i result pos)) \<subseteq> set result \<union> set characters
       \<and> snd (generateRandomString_loop g len i result pos) = pos + nat (len - i)"
proof (induction g len i result pos rule: generateRandomString_loop.induct)
  case (1 g len i result pos)
  show ?case
  proof (cases "i < len")
    case False
    then show ?thesis by (simp add: generateRandomString_loop.simps)
  next
    case True
    obtain k pos' where kp: "random_index g (int (length characters)) pos = (k, pos')"
      by (cases "random_index g (int (length characters)) pos")
    have len: "int (length characters) = 36" by (simp add: characters_def)
    have v: "valid_rng g" by (rule "1.prems")
    then have "0 \<le> k \<and> k < 36" using random_index_range [of g 36 pos] kp len by simp
    then have c: "length (charAt characters k) = 1" "set (charAt characters k) \<subseteq> set characters"
      using charAt_characters by simp_all
    have p: "pos' = Suc pos" using random_index_snd [of g "int (length characters)" pos] kp by simp
    have unfold: "generateRandomString_loop g len i result pos
        = generateRandomString_loop g len (i + 1) (result @ charAt characters k) pos'"
      using True kp by (simp add: generateRandomString_loop.simps [of g len i])
    have IH: "length (fst (generateRandomString_loop g len (i + 1) (result @ charAt characters k) pos'))
               = length (result @ charAt characters k) + nat (len - (i + 1))
       \<and> set (fst (generateRandomString_loop g len (i + 1) (result @ charAt characters k) pos'))
               \<subseteq> set (result @ charAt characters k) \<union> set characters
       \<and> snd (generateRandomString_loop g len (i + 1) (result @ charAt characters k) pos')
               = pos' + nat (len - (i + 1))"
      using "1.IH" [OF True kp [symmetric] refl v] by simp
    have ar: "Suc (nat (len - (i + 1))) = nat (len - i)" using True by simp
    show ?thesis
      unfolding unfold using IH c p ar by auto
  qed
qed

lemma generateRandomString_props:
  assumes "valid_rng g"
  shows "length (fst (generateRandomString g L pos)) = nat L"
    and "set (fst (generateRandomString g L pos)) \<subseteq> set characters"
    and "snd (generateRandomString g L pos) = pos + nat L"
  using generateRandomString_loop_props [OF assms, of L 0 "[]" pos]
  by (simp_all add: generateRandomString_def)

text \<open>
  C6. For every length \<open>L \<ge> 0\<close> and every random sequence with draws in \<open>[0, 1)\<close>,
  \<open>generateRandomString(L)\<close> returns a string of exactly \<open>L\<close> characters, each of them a
  lowercase letter or a digit; for \<open>L = 0\<close> it is the empty string.
\<close>

theorem generateRandomString_length_alphabet:
  assumes "valid_rng g" and "0 \<le> L"
  shows "length (fst (generateRandomString g L pos)) = nat L
       \<and> (\<forall>c \<in> set (fst (generateRandomString g L pos)). is_lower_alnum c)
       \<and> (L = 0 \<longrightarrow> fst (generateRandomString g L pos) = [])"
proof -
  let ?s = "fst (generateRandomString g L pos)"
  have P: "length ?s = nat L" "set ?s \<subseteq> set characters"
    using generateRandomString_props [OF assms(1)] by simp_all
  have "\<forall>c \<in> set ?s. is_lower_alnum c" using P(2) characters_alnum by blast
  moreover have "L = 0 \<longrightarrow> ?s = []" using P(1) by auto
  ultimately show ?thesis using P(1) by blast
qed

theorem generateRandomString_length_alphabet_witness:
  "valid_rng (\<lambda>n. 1 / 2) \<and> (0::int) \<le> 5
     \<and> length (fst (generateRandomString (\<lambda>n. 1 / 2) 5 0)) = 5
     \<and> list_all is_lower_alnum (fst (generateRandomString (\<lambda>n. 1 / 2) 5 0))
     \<and> fst (generateRandomString (\<lambda>n. 1 / 2) 0 0) = []"
  using generateRandomString_length_alphabet [of "\<lambda>n. 1 / 2" 5 0]
    generateRandomString_length_alphabet [of "\<lambda>n. 1 / 2" 0 0]
  by (simp add: valid_rng_def list_all_iff)

subsection \<open>The subdomain label\<close>

lemma js_index_in_range:
  assumes "0 \<le> i" and "i < int (length xs)"
  shows "\<exists>x \<in> set xs. js_index xs i = Some x"
proof -
  have "nat i < length xs" using assms by simp
  then have "xs ! nat i \<in> set xs" by (rule nth_mem)
  then show ?thesis using assms by (simp add: js_index_def)
qed

lemma js_join_chars:
  "set (js_join sep xs) \<subseteq> (\<Union>x \<in> set xs. set (js_elem_str x)) \<union> set sep"
  by (induction sep xs rule: js_join.induct) auto

lemma js_join_contains:
  "x \<in> set xs \<Longrightarrow> set (js_elem_str x) \<subseteq> set (js_join sep xs)"
  by (induction sep xs rule: js_join.induct) auto

lemma set_js_splice_insert: "set (js_splice_insert xs i x) = insert x (set xs)"
proof -
  have "set (take k xs) \<union> set (drop k xs) = set xs" for k
    by (metis append_take_drop_id set_append)
  then show ?thesis by (auto simp add: js_splice_insert_def Let_def)
qed

lemma push_randomPrefix_result:
  assumes "valid_rng g" and "subDomainPrefixes cfg \<noteq> []"
  shows "\<exists>p \<in> set (subDomainPrefixes cfg).
           push_randomPrefix cfg g parts pos = (parts @ [Some p], Suc pos)"
proof -
  let ?n = "int (length (subDomainPrefixes cfg))"
  have "0 < ?n" using assms(2) by simp
  then have "0 \<le> fst (random_index g ?n pos) \<and> fst (random_index g ?n pos) < ?n"
    using random_index_range [OF assms(1)] by blast
  then obtain p where "p \<in> set (subDomainPrefixes cfg)"
      and "js_index (subDomainPrefixes cfg) (fst (random_index g ?n pos)) = Some p"
    using js_index_in_range by blast
  then show ?thesis
    using random_index_snd [of g ?n pos]
    by (auto simp add: push_randomPrefix_def Let_def split: prod.splits)
qed

lemma push_randomPart_result:
  assumes "valid_rng g"
  shows "fst (push_randomPart cfg g parts pos) = parts
       \<or> (\<exists>s. set s \<subseteq> set characters \<and> fst (push_randomPart cfg g parts pos) = parts @ [Some s])"
proof (cases "g pos > 3 / 10")
  case False
  then show ?thesis by (simp add: push_randomPart_def math_random_def Let_def)
next
  case True
  let ?mn = "subDomainRandomLength_min cfg" and ?mx = "subDomainRandomLength_max cfg"
  obtain k pos2 where k: "random_index g (?mx - ?mn + 1) (Suc pos) = (k, pos2)"
    by (cases "random_index g (?mx - ?mn + 1) (Suc pos)")
  obtain s pos3 where s: "generateRandomString g (k + ?mn) pos2 = (s, pos3)"
    by (cases "generateRandomString g (k + ?mn) pos2")
  have "set s \<subseteq> set characters"
    using generateRandomString_props(2) [OF assms, of "k + ?mn" pos2] s by simp
  moreover have "fst (push_randomPart cfg g parts pos) = parts @ [Some s]"
    using True k s by (simp add: push_randomPart_def math_random_def Let_def)
  ultimately show ?thesis by blast
qed

lemma insert_www_result:
  "set (fst (insert_www cfg g parts pos)) \<subseteq> insert (Some ''www'') (set parts)
   \<and> set parts \<subseteq> set (fst (insert_www cfg g parts pos))"
  by (auto simp add: insert_www_def math_random_def Let_def set_js_splice_insert
           split: prod.splits)


lemma generateRandomSubdomain_unfold:
  "fst (generateRandomSubdomain cfg g pos) =
     js_join ''-'' (fst (insert_www cfg g (fst (parts_before_www cfg g pos))
                                     (snd (parts_before_www cfg g pos))))"
  by (simp add: generateRandomSubdomain_def split_def Let_def)

lemma parts_before_www_result:
  assumes "valid_rng g" and "subDomainPrefixes cfg \<noteq> []"
  shows "\<exists>p \<in> set (subDomainPrefixes cfg).
           fst (parts_before_www cfg g pos) = [Some p]
         \<or> (\<exists>s. set s \<subseteq> set characters \<and> fst (parts_before_www cfg g pos) = [Some p, Some s])"
proof -
  obtain p where p: "p \<in> set (subDomainPrefixes cfg)"
      and pp: "push_randomPrefix cfg g [] pos = ([Some p], Suc pos)"
    using push_randomPrefix_result [OF assms, of "[]" pos] by auto
  have "parts_before_www cfg g pos = push_randomPart cfg g [Some p] (Suc pos)"
    using pp by (simp add: parts_before_www_def)
  then show ?thesis
    using push_randomPart_result [OF assms(1), of cfg "[Some p]" "Suc pos"] p by auto
qed

lemma www_label: "\<forall>c \<in> set ''www''. is_label_char c"
  by (simp add: is_label_char_def is_lower_alnum_def)

lemma characters_label: "\<forall>c \<in> set characters. is_label_char c"
  using characters_alnum by (simp add: is_label_char_def)

lemma generateRandomSubdomain_label:
  assumes "valid_rng g" and "valid_vocabulary cfg"
  shows "fst (generateRandomSubdomain cfg g pos) \<noteq> []"
    and "\<forall>c \<in> set (fst (generateRandomSubdomain cfg g pos)). is_label_char c"
proof -
  let ?parts2 = "fst (parts_before_www cfg g pos)"
  let ?parts3 = "fst (insert_www cfg g ?parts2 (snd (parts_before_www cfg g pos)))"
  have ne: "subDomainPrefixes cfg \<noteq> []" using assms(2) by (simp add: valid_vocabulary_def)
  obtain p where p: "p \<in> set (subDomainPrefixes cfg)"
      and p2: "?parts2 = [Some p] \<or> (\<exists>s. set s \<subseteq> set characters \<and> ?parts2 = [Some p, Some s])"
    using parts_before_www_result [OF assms(1) ne, of pos] by blast
  have pok: "p \<noteq> []" "\<forall>c \<in> set p. is_label_char c"
    using p assms(2) by (simp_all add: valid_vocabulary_def)
  have el2: "\<forall>x \<in> set ?parts2. \<forall>c \<in> set (js_elem_str x). is_label_char c"
  proof (rule disjE [OF p2])
    assume "?parts2 = [Some p]"
    then show ?thesis using pok(2) by (simp add: js_elem_str_def)
  next
    assume "\<exists>s. set s \<subseteq> set characters \<and> ?parts2 = [Some p, Some s]"
    then obtain s where s: "set s \<subseteq> set characters" "?parts2 = [Some p, Some s]" by blast
    have "\<forall>c \<in> set s. is_label_char c" using s(1) characters_label by blast
    then show ?thesis using pok(2) s(2) by (simp add: js_elem_str_def)
  qed
  have sub: "set ?parts3 \<subseteq> insert (Some ''www'') (set ?parts2)" "set ?parts2 \<subseteq> set ?parts3"
    using insert_www_result [of cfg g ?parts2] by simp_all
  have "\<forall>c \<in> set (js_elem_str (Some ''www'')). is_label_char c"
    using www_label by (simp add: js_elem_str_def)
  then have el3: "\<forall>x \<in> set ?parts3. \<forall>c \<in> set (js_elem_str x). is_label_char c"
    using el2 sub(1) by blast
  have "Some p \<in> set ?parts2" using p2 by auto
  then have "Some p \<in> set ?parts3" using sub(2) by blast
  then have "set (js_elem_str (Some p)) \<subseteq> set (js_join ''-'' ?parts3)"
    by (rule js_join_contains)
  then have "set p \<subseteq> set (js_join ''-'' ?parts3)" by (simp add: js_elem_str_def)
  then have "js_join ''-'' ?parts3 \<noteq> []" using pok(1) by auto
  then show "fst (generateRandomSubdomain cfg g pos) \<noteq> []"
    by (simp add: generateRandomSubdomain_unfold)
  have "is_label_char CHR ''-''" by (simp add: is_label_char_def)
  then have "\<forall>c \<in> set (js_join ''-'' ?parts3). is_label_char c"
    using js_join_chars [of "''-''" ?parts3] el3 by auto
  then show "\<forall>c \<in> set (fst (generateRandomSubdomain cfg g pos)). is_label_char c"
    by (simp add: generateRandomSubdomain_unfold)
qed

lemma domainConfig_valid: "valid_vocabulary domainConfig"
  by (simp add: valid_vocabulary_def domainConfig_def is_label_char_def is_lower_alnum_def)

text \<open>
  C5. With the shipped configuration and draws in \<open>[0, 1)\<close>, \<open>generateRandomSubdomain\<close>
  returns a non-empty string without a dot, all of whose characters are in \<open>[a-z0-9-]\<close>.
\<close>

theorem generateRandomSubdomain_is_label:
  assumes "valid_rng g"
  shows "fst (generateRandomSubdomain domainConfig g pos) \<noteq> []
       \<and> CHR ''.'' \<notin> set (fst (generateRandomSubdomain domainConfig g pos))
       \<and> (\<forall>c \<in> set (fst (generateRandomSubdomain domainConfig g pos)). is_label_char c)"
proof -
  let ?s = "fst (generateRandomSubdomain domainConfig g pos)"
  have l: "?s \<noteq> []" "\<forall>c \<in> set ?s. is_label_char c"
    using generateRandomSubdomain_label [OF assms domainConfig_valid] by simp_all
  have "\<not> is_label_char CHR ''.''" by (simp add: is_label_char_def is_lower_alnum_def)
  then have "CHR ''.'' \<notin> set ?s" using l(2) by blast
  then show ?thesis using l by blast
qed

theorem generateRandomSubdomain_is_label_witness:
  "valid_rng (\<lambda>n. 1 / 2)
     \<and> fst (generateRandomSubdomain domainConfig (\<lambda>n. 1 / 2) 0) \<noteq> []
     \<and> CHR ''.'' \<notin> set (fst (generateRandomSubdomain domainConfig (\<lambda>n. 1 / 2) 0))
     \<and> list_all is_label_char (fst (generateRandomSubdomain domainConfig (\<lambda>n. 1 / 2) 0))"
  using generateRandomSubdomain_is_label [of "\<lambda>n. 1 / 2" 0]
  by (simp add: valid_rng_def list_all_iff)

subsection \<open>The URL\<close>

lemma getRandomTopLevelDomain_result:
  assumes "valid_rng g" and "topLevelDomains cfg \<noteq> []"
  shows "\<exists>t \<in> set (topLevelDomains cfg). fst (getRandomTopLevelDomain cfg g pos) = Some t"
proof -
  let ?n = "int (length (topLevelDomains cfg))"
  have "0 < ?n" using assms(2) by simp
  then have "0 \<le> fst (random_index g ?n pos) \<and> fst (random_index g ?n pos) < ?n"
    using random_index_range [OF assms(1)] by blast
  then obtain t where "t \<in> set (topLevelDomains cfg)"
      and "js_index (topLevelDomains cfg) (fst (random_index g ?n pos)) = Some t"
    using js_index_in_range by blast
  then show ?thesis
    by (auto simp add: getRandomTopLevelDomain_def Let_def split: prod.splits)
qed

lemma buildRedirectURL_shape:
  assumes "valid_rng g" and "topLevelDomains cfg \<noteq> []"
  shows "\<exists>scheme tld. (scheme = ''https'' \<or> scheme = ''http'') \<and> tld \<in> set (topLevelDomains cfg)
           \<and> fst (buildRedirectURL cfg g pos)
               = scheme @ ''://'' @ fst (generateRandomSubdomain cfg g pos) @ ''.'' @ tld"
proof -
  obtain sub pos1 where s: "generateRandomSubdomain cfg g pos = (sub, pos1)"
    by (cases "generateRandomSubdomain cfg g pos")
  obtain top pos2 where t: "getRandomTopLevelDomain cfg g pos1 = (top, pos2)"
    by (cases "getRandomTopLevelDomain cfg g pos1")
  obtain tld where tld: "tld \<in> set (topLevelDomains cfg)" "top = Some tld"
    using getRandomTopLevelDomain_result [OF assms, of pos1] t by auto
  have "fst (buildRedirectURL cfg g pos)
          = (if g pos2 > 5 / 10 then ''https'' else ''http'') @ ''://'' @ sub @ ''.'' @ tld"
    using s t tld(2) by (simp add: buildRedirectURL_def math_random_def template_str_def)
  then show ?thesis using tld(1) s by (cases "g pos2 > 5 / 10") auto
qed

text \<open>
  For the constant sequence \<open>1/2\<close> the URL is built from eleven draws: the prefix
  \<open>shop\<close>, a five-character token, no \<open>www\<close>, the third top-level domain and \<open>http\<close>.
\<close>

lemma buildRedirectURL_example: "buildRedirectURL domainConfig (\<lambda>n. 1 / 2) 0 = (''http://shop-sssss.mysite.net'', 11)"
  by (simp add: buildRedirectURL_def generateRandomSubdomain_def parts_before_www_def
        push_randomPrefix_def push_randomPart_def insert_www_def getRandomTopLevelDomain_def
        generateRandomString_def generateRandomString_loop.simps random_index_def
        math_random_def charAt_def characters_def js_index_def domainConfig_def template_str_def
        js_elem_str_def)

text \<open>
  C4. With the shipped configuration and draws in \<open>[0, 1)\<close>, \<open>buildRedirectURL\<close> returns
  \<open>scheme://label.tld\<close> where the scheme is \<open>https\<close> or \<open>http\<close>, the label is a non-empty
  string over \<open>[a-z0-9-]\<close> and \<open>tld\<close> is an entry of the configured list of top-level
  domains: the strings matched by \<open>^(https|http)://[a-z0-9-]+\.(TLD)$\<close>.
\<close>

theorem buildRedirectURL_matches_pattern:
  assumes "valid_rng g"
  shows "\<exists>scheme label tld.
           fst (buildRedirectURL domainConfig g pos) = scheme @ ''://'' @ label @ ''.'' @ tld
         \<and> (scheme = ''https'' \<or> scheme = ''http'')
         \<and> label \<noteq> [] \<and> (\<forall>c \<in> set label. is_label_char c)
         \<and> tld \<in> set (topLevelDomains domainConfig)"
proof -
  have ne: "topLevelDomains domainConfig \<noteq> []" by (simp add: domainConfig_def)
  obtain scheme tld where u: "scheme = ''https'' \<or> scheme = ''http''"
      "tld \<in> set (topLevelDomains domainConfig)"
      "fst (buildRedirectURL domainConfig g pos)
         = scheme @ ''://'' @ fst (generateRandomSubdomain domainConfig g pos) @ ''.'' @ tld"
    using buildRedirectURL_shape [OF assms ne, of pos] by blast
  have l: "fst (generateRandomSubdomain domainConfig g pos) \<noteq> []"
     "\<forall>c \<in> set (fst (generateRandomSubdomain domainConfig g pos)). is_label_char c"
    using generateRandomSubdomain_label [OF assms domainConfig_valid] by simp_all
  show ?thesis using u l by blast
qed

theorem buildRedirectURL_matches_pattern_witness:
  "valid_rng (\<lambda>n. 1 / 2)
     \<and> (\<exists>scheme label tld.
           fst (buildRedirectURL domainConfig (\<lambda>n. 1 / 2) 0) = scheme @ ''://'' @ label @ ''.'' @ tld
         \<and> (scheme = ''https'' \<or> scheme = ''http'')
         \<and> label \<noteq> [] \<and> (\<forall>c \<in> set label. is_label_char c)
         \<and> tld \<in> set (topLevelDomains domainConfig))"
  using buildRedirectURL_matches_pattern [of "\<lambda>n. 1 / 2" 0]
  by (simp add: valid_rng_def)

subsection \<open>Effects of \<open>performRedirect\<close> and \<open>secureRedirect\<close>\<close>

lemma performRedirect_effect:
  "performRedirect cfg g throws w =
     (if throws (fst (buildRedirectURL cfg g (random_pos w))) then
        w\<lparr>random_pos := snd (buildRedirectURL cfg g (random_pos w)),
          console := console w @
            [Log_redirecting (fst (buildRedirectURL cfg g (random_pos w))),
             Error_redirect_failed (NavigationError (fst (buildRedirectURL cfg g (random_pos w))))]\<rparr>
      else
        w\<lparr>random_pos := snd (buildRedirectURL cfg g (random_pos w)),
          console := console w @ [Log_redirecting (fst (buildRedirectURL cfg g (random_pos w)))],
          navigations := navigations w @ [fst (buildRedirectURL cfg g (random_pos w))]\<rparr>)"
  by (simp add: performRedirect_def location_replace_def console_put_def split_def Let_def)

lemma performRedirect_frame:
  "localStorage (performRedirect cfg g throws w) = localStorage w"
  "timers (performRedirect cfg g throws w) = timers w"
  "now (performRedirect cfg g throws w) = now w"
  by (simp_all add: performRedirect_effect)

lemma secureRedirect_blocked:
  "\<not> js_lt (read_redirectCount w) (Num maxRedirects) \<Longrightarrow>
   secureRedirect cfg g throws w = w\<lparr>console := console w @ [Warn_max_redirects maxRedirects]\<rparr>"
  by (simp add: secureRedirect_def console_put_def)

lemma secureRedirect_allowed:
  "read_redirectCount w = Num n \<Longrightarrow> n < maxRedirects \<Longrightarrow>
   secureRedirect cfg g throws w =
     performRedirect cfg g throws
       (w\<lparr>localStorage := (localStorage w)(storageKey \<mapsto> js_toString (Num (n + 1))),
          timers := timers w @ [(now w + 10000, RemoveItem storageKey)]\<rparr>)"
  by (simp add: secureRedirect_def js_lt_def js_add_def setItem_def setTimeout_def)

lemma read_absent: "localStorage w storageKey = None \<Longrightarrow> read_redirectCount w = Num 0"
  by (simp add: read_redirectCount_def getItem_def or_default_def parseInt10_def
        is_js_whitespace_def is_digit_def digits_value_def)

lemma read_empty: "localStorage w storageKey = Some [] \<Longrightarrow> read_redirectCount w = Num 0"
  by (simp add: read_redirectCount_def getItem_def or_default_def parseInt10_def
        is_js_whitespace_def is_digit_def digits_value_def)

lemma toString_small:
  "js_toString (Num 1) = ''1''" "js_toString (Num 2) = ''2''" "js_toString (Num 3) = ''3''"
  by (simp_all add: js_toString_def nat_toString.simps digit_char_def)

lemma parseInt10_small:
  "parseInt10 ''1'' = Num 1" "parseInt10 ''2'' = Num 2" "parseInt10 ''3'' = Num 3"
  "parseInt10 ''abc'' = NaN"
  by (simp_all add: parseInt10_def is_js_whitespace_def is_digit_def digits_value_def)

lemma read_present:
  "localStorage w storageKey = Some s \<Longrightarrow> s \<noteq> [] \<Longrightarrow> read_redirectCount w = parseInt10 s"
  by (simp add: read_redirectCount_def getItem_def or_default_def)

lemma read_cong:
  "localStorage w' storageKey = localStorage w storageKey \<Longrightarrow>
   read_redirectCount w' = read_redirectCount w"
  by (simp add: read_redirectCount_def getItem_def)

lemma half_draws_const: "half_draws = (\<lambda>n. 1 / 2)"
  by (simp add: fun_eq_iff half_draws_def)

subsection \<open>The blocked branch\<close>

text \<open>
  C10. When the count read from storage is \<open>NaN\<close> or not below \<open>maxRedirects\<close>,
  \<open>secureRedirect\<close> only writes the warning to the console: the storage, the pending
  timers, the navigations and the random source are as before.
\<close>

theorem blocked_branch_leaves_state:
  assumes "read_redirectCount w = NaN
         \<or> (\<exists>n. read_redirectCount w = Num n \<and> maxRedirects \<le> n)"
  shows "secureRedirect cfg g throws w
           = w\<lparr>console := console w @ [Warn_max_redirects maxRedirects]\<rparr>
       \<and> localStorage (secureRedirect cfg g throws w) = localStorage w
       \<and> timers (secureRedirect cfg g throws w) = timers w
       \<and> navigations (secureRedirect cfg g throws w) = navigations w
       \<and> random_pos (secureRedirect cfg g throws w) = random_pos w"
proof -
  have "\<not> js_lt (read_redirectCount w) (Num maxRedirects)"
    using assms by (auto simp add: js_lt_def)
  then show ?thesis by (simp add: secureRedirect_blocked)
qed

theorem blocked_branch_leaves_state_witness:
  "(read_redirectCount three_world = NaN
      \<or> (\<exists>n. read_redirectCount three_world = Num n \<and> maxRedirects \<le> n))
 \<and> secureRedirect domainConfig half_draws never_throws three_world
      = three_world\<lparr>console := [Warn_max_redirects 3]\<rparr>
 \<and> localStorage (secureRedirect domainConfig half_draws never_throws three_world) storageKey
      = Some ''3''
 \<and> timers (secureRedirect domainConfig half_draws never_throws three_world) = []
 \<and> navigations (secureRedirect domainConfig half_draws never_throws three_world) = []
 \<and> (read_redirectCount abc_world = NaN
      \<or> (\<exists>n. read_redirectCount abc_world = Num n \<and> maxRedirects \<le> n))
 \<and> secureRedirect domainConfig half_draws never_throws abc_world
      = abc_world\<lparr>console := [Warn_max_redirects 3]\<rparr>"
proof -
  have s: "localStorage three_world storageKey = Some ''3''"
    by (simp add: three_world_def fresh_world_def)
  have r: "read_redirectCount three_world = Num 3"
    using read_present [OF s] by (simp add: parseInt10_small)
  then have h: "read_redirectCount three_world = NaN
      \<or> (\<exists>n. read_redirectCount three_world = Num n \<and> maxRedirects \<le> n)"
    by (simp add: maxRedirects_def)
  have s': "localStorage abc_world storageKey = Some ''abc''"
    by (simp add: abc_world_def fresh_world_def)
  have "read_redirectCount abc_world = NaN"
    using read_present [OF s'] by (simp add: parseInt10_small)
  then have h': "read_redirectCount abc_world = NaN
      \<or> (\<exists>n. read_redirectCount abc_world = Num n \<and> maxRedirects \<le> n)"
    by simp
  show ?thesis
    using h s h'
      blocked_branch_leaves_state [OF h, of domainConfig half_draws never_throws]
      blocked_branch_leaves_state [OF h', of domainConfig half_draws never_throws]
    by (simp add: three_world_def abc_world_def fresh_world_def maxRedirects_def)
qed

subsection \<open>A navigation that throws\<close>

text \<open>
  C8. If \<open>window.location.replace\<close> throws on the URL that was built, \<open>performRedirect\<close>
  logs the URL, catches the error, logs it, and returns: one URL was built, no navigation
  is recorded, and nothing else changes. \<open>secureRedirect\<close> ends with that call, so the page
  load leaves the navigations as they were; in its allowed branch the final state is the
  initial one with the counter written, its reset timer scheduled and the two console
  entries.
\<close>

theorem navigation_error_is_swallowed:
  assumes "throws (fst (buildRedirectURL cfg g (random_pos w)))"
  shows "performRedirect cfg g throws w =
           w\<lparr>random_pos := snd (buildRedirectURL cfg g (random_pos w)),
             console := console w @
               [Log_redirecting (fst (buildRedirectURL cfg g (random_pos w))),
                Error_redirect_failed
                  (NavigationError (fst (buildRedirectURL cfg g (random_pos w))))]\<rparr>
       \<and> navigations (secureRedirect cfg g throws w) = navigations w
       \<and> (js_lt (read_redirectCount w) (Num maxRedirects) \<longrightarrow>
            secureRedirect cfg g throws w =
              w\<lparr>localStorage := (localStorage w)
                   (storageKey \<mapsto> js_toString (js_add (read_redirectCount w) (Num 1))),
                timers := timers w @ [(now w + 10 * 1000, RemoveItem storageKey)],
                random_pos := snd (buildRedirectURL cfg g (random_pos w)),
                console := console w @
                  [Log_redirecting (fst (buildRedirectURL cfg g (random_pos w))),
                   Error_redirect_failed
                     (NavigationError (fst (buildRedirectURL cfg g (random_pos w))))]\<rparr>)"
proof -
  have p: "performRedirect cfg g throws w =
           w\<lparr>random_pos := snd (buildRedirectURL cfg g (random_pos w)),
             console := console w @
               [Log_redirecting (fst (buildRedirectURL cfg g (random_pos w))),
                Error_redirect_failed
                  (NavigationError (fst (buildRedirectURL cfg g (random_pos w))))]\<rparr>"
    using assms by (simp add: performRedirect_effect)
  have a: "secureRedirect cfg g throws w =
              w\<lparr>localStorage := (localStorage w)
                   (storageKey \<mapsto> js_toString (js_add (read_redirectCount w) (Num 1))),
                timers := timers w @ [(now w + 10 * 1000, RemoveItem storageKey)],
                random_pos := snd (buildRedirectURL cfg g (random_pos w)),
                console := console w @
                  [Log_redirecting (fst (buildRedirectURL cfg g (random_pos w))),
                   Error_redirect_failed
                     (NavigationError (fst (buildRedirectURL cfg g (random_pos w))))]\<rparr>"
    if "js_lt (read_redirectCount w) (Num maxRedirects)"
    using that assms
    by (simp add: secureRedirect_def performRedirect_effect setItem_def setTimeout_def)
  have n: "navigations (secureRedirect cfg g throws w) = navigations w"
  proof (cases "js_lt (read_redirectCount w) (Num maxRedirects)")
    case True
    then show ?thesis by (simp add: a)
  next
    case False
    then show ?thesis by (simp add: secureRedirect_blocked)
  qed
  show ?thesis using p n a by blast
qed

theorem navigation_error_is_swallowed_witness:
  "always_throws (fst (buildRedirectURL domainConfig half_draws (random_pos fresh_world)))
 \<and> performRedirect domainConfig half_draws always_throws fresh_world =
      fresh_world\<lparr>random_pos := 11,
        console := [Log_redirecting ''http://shop-sssss.mysite.net'',
                    Error_redirect_failed (NavigationError ''http://shop-sssss.mysite.net'')]\<rparr>
 \<and> navigations (secureRedirect domainConfig half_draws always_throws fresh_world) = []"
proof -
  have h: "always_throws (fst (buildRedirectURL domainConfig half_draws (random_pos fresh_world)))"
    by (simp add: always_throws_def)
  have p: "random_pos fresh_world = 0" "console fresh_world = []" "navigations fresh_world = []"
    by (simp_all add: fresh_world_def)
  show ?thesis
    using h navigation_error_is_swallowed
      [of always_throws domainConfig half_draws fresh_world, OF h]
    by (simp add: p half_draws_const buildRedirectURL_example)
qed

subsection \<open>A missing or unparsable counter\<close>

text \<open>
  C1, as stated, fails: with the string \<open>abc\<close> in storage \<open>parseInt\<close> gives \<open>NaN\<close>, the
  test \<open>NaN < 3\<close> is false, and the blocked branch runs. Nothing is navigated to and the
  entry still holds \<open>abc\<close>.
\<close>

theorem non_numeric_counter_is_blocked:
  "read_redirectCount abc_world = NaN
 \<and> navigations (secureRedirect domainConfig half_draws never_throws abc_world)
      = navigations abc_world
 \<and> localStorage (secureRedirect domainConfig half_draws never_throws abc_world) storageKey
      = Some ''abc''
 \<and> localStorage (secureRedirect domainConfig half_draws never_throws abc_world) storageKey
      \<noteq> Some ''1''"
proof -
  have s: "localStorage abc_world storageKey = Some ''abc''"
    by (simp add: abc_world_def fresh_world_def)
  have r: "read_redirectCount abc_world = NaN"
    using read_present [OF s] by (simp add: parseInt10_small)
  then have "\<not> js_lt (read_redirectCount abc_world) (Num maxRedirects)"
    by (simp add: js_lt_def)
  then have "secureRedirect domainConfig half_draws never_throws abc_world
      = abc_world\<lparr>console := console abc_world @ [Warn_max_redirects maxRedirects]\<rparr>"
    by (rule secureRedirect_blocked)
  then show ?thesis using r s by simp
qed

text \<open>
  C1, amended. If the storage entry is missing or holds the empty string, the count is
  read as 0: the entry becomes \<open>1\<close> and the browser navigates to the URL built (unless the
  navigation call throws). If the entry holds a non-empty string that \<open>parseInt\<close> maps to
  \<open>NaN\<close>, such as \<open>abc\<close>, the blocked branch runs: no navigation, storage unchanged.
\<close>

theorem absent_counter_counts_as_zero:
  "(localStorage w storageKey = None \<or> localStorage w storageKey = Some [] \<longrightarrow>
      read_redirectCount w = Num 0
    \<and> localStorage (secureRedirect cfg g throws w) storageKey = Some ''1''
    \<and> (\<not> throws (fst (buildRedirectURL cfg g (random_pos w))) \<longrightarrow>
         navigations (secureRedirect cfg g throws w)
           = navigations w @ [fst (buildRedirectURL cfg g (random_pos w))]))
 \<and> (\<forall>s. localStorage w storageKey = Some s \<and> s \<noteq> [] \<and> parseInt10 s = NaN \<longrightarrow>
      navigations (secureRedirect cfg g throws w) = navigations w
    \<and> localStorage (secureRedirect cfg g throws w) = localStorage w)"
proof -
  have zero: "read_redirectCount w = Num 0
    \<and> localStorage (secureRedirect cfg g throws w) storageKey = Some ''1''
    \<and> (\<not> throws (fst (buildRedirectURL cfg g (random_pos w))) \<longrightarrow>
         navigations (secureRedirect cfg g throws w)
           = navigations w @ [fst (buildRedirectURL cfg g (random_pos w))])"
    if "localStorage w storageKey = None \<or> localStorage w storageKey = Some []"
  proof -
    have r: "read_redirectCount w = Num 0" using that read_absent read_empty by blast
    have "(0::int) < maxRedirects" by (simp add: maxRedirects_def)
    then show ?thesis
      using r by (simp add: secureRedirect_allowed [OF r] performRedirect_effect toString_small)
  qed
  have nan: "navigations (secureRedirect cfg g throws w) = navigations w
    \<and> localStorage (secureRedirect cfg g throws w) = localStorage w"
    if "localStorage w storageKey = Some s \<and> s \<noteq> [] \<and> parseInt10 s = NaN" for s
  proof -
    have "read_redirectCount w = NaN" using that read_present [of w s] by simp
    then have "\<not> js_lt (read_redirectCount w) (Num maxRedirects)" by (simp add: js_lt_def)
    then show ?thesis by (simp add: secureRedirect_blocked)
  qed
  show ?thesis using zero nan by blast
qed

theorem absent_counter_counts_as_zero_witness:
  "(localStorage fresh_world storageKey = None \<or> localStorage fresh_world storageKey = Some [])
 \<and> \<not> never_throws (fst (buildRedirectURL domainConfig half_draws (random_pos fresh_world)))
 \<and> read_redirectCount fresh_world = Num 0
 \<and> localStorage (secureRedirect domainConfig half_draws never_throws fresh_world) storageKey
      = Some ''1''
 \<and> navigations (secureRedirect domainConfig half_draws never_throws fresh_world)
      = [''http://shop-sssss.mysite.net'']"
proof -
  have h: "localStorage fresh_world storageKey = None \<or> localStorage fresh_world storageKey = Some []"
    by (simp add: fresh_world_def)
  have p: "random_pos fresh_world = 0" "navigations fresh_world = []"
    by (simp_all add: fresh_world_def)
  have u: "fst (buildRedirectURL domainConfig half_draws 0) = ''http://shop-sssss.mysite.net''"
    by (simp add: half_draws_const buildRedirectURL_example)
  show ?thesis
    using h absent_counter_counts_as_zero [of fresh_world domainConfig half_draws never_throws]
    by (simp add: p u never_throws_def)
qed

subsection \<open>Page loads within the reset window\<close>

lemma counter_is_read:
  assumes "counter_is w k" and "k \<le> 3"
  shows "read_redirectCount w = Num (int k)"
proof -
  consider "k = 0" | "k = 1" | "k = 2" | "k = 3" using assms(2) by linarith
  then show ?thesis
  proof cases
    case 1
    then show ?thesis using assms(1) by (simp add: counter_is_def read_absent)
  next
    case 2
    then have "localStorage w storageKey = Some ''1''"
      using assms(1) by (simp add: counter_is_def toString_small)
    then show ?thesis using 2 by (simp add: read_present parseInt10_small)
  next
    case 3
    then have "localStorage w storageKey = Some ''2''"
      using assms(1) by (simp add: counter_is_def toString_small)
    then show ?thesis using 3 by (simp add: read_present parseInt10_small)
  next
    case 4
    then have "localStorage w storageKey = Some ''3''"
      using assms(1) by (simp add: counter_is_def toString_small)
    then show ?thesis using 4 by (simp add: read_present parseInt10_small)
  qed
qed

lemma secureRedirect_counter_step:
  assumes "counter_is w k" and "k \<le> 3"
  shows "counter_is (secureRedirect cfg g throws w) (min (Suc k) 3)"
    and "timers (secureRedirect cfg g throws w) =
           (if k < 3 then timers w @ [(now w + 10000, RemoveItem storageKey)] else timers w)"
    and "now (secureRedirect cfg g throws w) = now w"
    and "k = 3 \<Longrightarrow> navigations (secureRedirect cfg g throws w) = navigations w"
proof -
  have r: "read_redirectCount w = Num (int k)" by (rule counter_is_read [OF assms])
  show "counter_is (secureRedirect cfg g throws w) (min (Suc k) 3)"
  proof (cases "k < 3")
    case True
    then have "int k < maxRedirects" by (simp add: maxRedirects_def)
    then show ?thesis using True
      by (simp add: secureRedirect_allowed [OF r] performRedirect_frame counter_is_def
            add.commute)
  next
    case False
    then have "\<not> js_lt (read_redirectCount w) (Num maxRedirects)"
      using r by (simp add: js_lt_def maxRedirects_def)
    then show ?thesis using False assms
      by (simp add: secureRedirect_blocked counter_is_def)
  qed
  show "timers (secureRedirect cfg g throws w) =
           (if k < 3 then timers w @ [(now w + 10000, RemoveItem storageKey)] else timers w)"
  proof (cases "k < 3")
    case True
    then have "int k < maxRedirects" by (simp add: maxRedirects_def)
    then show ?thesis using True
      by (simp add: secureRedirect_allowed [OF r] performRedirect_frame)
  next
    case False
    then have "\<not> js_lt (read_redirectCount w) (Num maxRedirects)"
      using r by (simp add: js_lt_def maxRedirects_def)
    then show ?thesis using False by (simp add: secureRedirect_blocked)
  qed
  show "now (secureRedirect cfg g throws w) = now w"
  proof (cases "k < 3")
    case True
    then have "int k < maxRedirects" by (simp add: maxRedirects_def)
    then show ?thesis
      by (simp add: secureRedirect_allowed [OF r] performRedirect_frame)
  next
    case False
    then have "\<not> js_lt (read_redirectCount w) (Num maxRedirects)"
      using r by (simp add: js_lt_def maxRedirects_def)
    then show ?thesis by (simp add: secureRedirect_blocked)
  qed
  show "navigations (secureRedirect cfg g throws w) = navigations w" if "k = 3"
  proof -
    have "\<not> js_lt (read_redirectCount w) (Num maxRedirects)"
      using r that by (simp add: js_lt_def maxRedirects_def)
    then show ?thesis by (simp add: secureRedirect_blocked)
  qed
qed

lemma elapse_nothing_due:
  assumes "timers_after w (now w + dt)"
  shows "elapse dt w = w\<lparr>now := now w + dt\<rparr>"
proof -
  have a: "\<forall>x \<in> set (timers w). \<not> fst x \<le> now w + dt"
    using assms by (auto simp add: timers_after_def)
  then have "filter (\<lambda>t. fst t \<le> now w + dt) (timers w) = []"
    by (simp add: filter_empty_conv)
  moreover have "filter (\<lambda>t. \<not> fst t \<le> now w + dt) (timers w) = timers w"
    using a by (simp add: filter_id_conv)
  ultimately show ?thesis by (simp add: elapse_def fire_due_def)
qed

lemma run_in_window:
  "counter_is w k \<Longrightarrow> k \<le> 3 \<Longrightarrow> timers_after w (now w + duration es) \<Longrightarrow>
   duration es < 10000 \<Longrightarrow>
   counter_is (run cfg g throws es w) (min (k + loads es) 3)"
proof (induction es arbitrary: w k)
  case Nil
  then show ?case by simp
next
  case (Cons e es)
  show ?case
  proof (cases e)
    case PageLoad
    let ?w = "secureRedirect cfg g throws w"
    note s = secureRedirect_counter_step [OF Cons.prems(1,2), of cfg g throws]
    have d: "duration es < 10000" "duration (e # es) = duration es"
      using Cons.prems(4) PageLoad by simp_all
    have "timers_after ?w (now ?w + duration es)"
      using Cons.prems(3) d s(2,3) by (auto simp add: timers_after_def)
    then have "counter_is (run cfg g throws es ?w) (min (min (Suc k) 3 + loads es) 3)"
      using Cons.IH [OF s(1) _ _ d(1)] by simp
    moreover have "min (min (Suc k) 3 + loads es) 3 = min (k + loads (e # es)) 3"
      using PageLoad by simp
    ultimately show ?thesis using PageLoad by simp
  next
    case (Elapse dt)
    let ?w = "w\<lparr>now := now w + dt\<rparr>"
    have t: "timers_after w (now w + dt)"
      using Cons.prems(3) Elapse by (auto simp add: timers_after_def)
    have e: "elapse dt w = ?w" by (rule elapse_nothing_due [OF t])
    have c: "counter_is ?w k" using Cons.prems(1) by (simp add: counter_is_def)
    have ta: "timers_after ?w (now ?w + duration es)"
      using Cons.prems(3) Elapse by (simp add: timers_after_def add.assoc)
    have d: "duration es < 10000" using Cons.prems(4) Elapse by simp
    have "counter_is (run cfg g throws es ?w) (min (k + loads es) 3)"
      by (rule Cons.IH [OF c Cons.prems(2) ta d])
    then show ?thesis using Elapse e by simp
  qed
qed

lemma run_append:
  "run cfg g throws (es @ es') w = run cfg g throws es' (run cfg g throws es w)"
  by (induction es arbitrary: w) simp_all

text \<open>
  C2. Start with the storage entry absent and no timer pending, and let any schedule of
  page loads and waits run whose waits add up to less than the ten seconds of the reset
  delay. If it contains \<open>N \<ge> 1\<close> page loads, the entry afterwards holds the decimal string
  of \<open>min N 3\<close>; and once three loads have happened, a further load in the window adds no
  navigation.
\<close>

theorem counter_after_loads:
  assumes "localStorage w storageKey = None" and "timers w = []"
    and "duration es < 10 * 1000" and "1 \<le> loads es"
  shows "localStorage (run cfg g throws es w) storageKey
           = Some (js_toString (Num (min (int (loads es)) 3)))
       \<and> (3 \<le> loads es \<longrightarrow>
            navigations (run cfg g throws (es @ [PageLoad]) w)
              = navigations (run cfg g throws es w))"
proof -
  let ?w = "run cfg g throws es w"
  have c0: "counter_is w 0" using assms(1) by (simp add: counter_is_def)
  have t0: "timers_after w (now w + duration es)" using assms(2) by (simp add: timers_after_def)
  have c: "counter_is ?w (min (loads es) 3)"
    using run_in_window [OF c0 _ t0, of cfg g throws] assms(3) by simp
  have "int (min (loads es) 3) = min (int (loads es)) 3" by simp
  then have st: "localStorage ?w storageKey = Some (js_toString (Num (min (int (loads es)) 3)))"
    using c assms(4) by (simp add: counter_is_def)
  have "navigations (run cfg g throws (es @ [PageLoad]) w) = navigations ?w" if "3 \<le> loads es"
  proof -
    have "counter_is ?w 3" using c that by simp
    then have "navigations (secureRedirect cfg g throws ?w) = navigations ?w"
      using secureRedirect_counter_step(4) [of ?w 3] by simp
    then show ?thesis by (simp add: run_append)
  qed
  then show ?thesis using st by blast
qed

theorem counter_after_loads_witness:
  "localStorage fresh_world storageKey = None \<and> timers fresh_world = []
 \<and> duration [PageLoad, Elapse 5, PageLoad, PageLoad, PageLoad] < 10 * 1000
 \<and> 1 \<le> loads [PageLoad, Elapse 5, PageLoad, PageLoad, PageLoad]
 \<and> localStorage (run domainConfig half_draws never_throws
        [PageLoad, Elapse 5, PageLoad, PageLoad, PageLoad] fresh_world) storageKey = Some ''3''
 \<and> navigations (run domainConfig half_draws never_throws
        ([PageLoad, Elapse 5, PageLoad, PageLoad, PageLoad] @ [PageLoad]) fresh_world)
     = navigations (run domainConfig half_draws never_throws
        [PageLoad, Elapse 5, PageLoad, PageLoad, PageLoad] fresh_world)"
  using counter_after_loads [of fresh_world "[PageLoad, Elapse 5, PageLoad, PageLoad, PageLoad]"
      domainConfig half_draws never_throws]
  by (simp add: fresh_world_def toString_small)

subsection \<open>The invariant of the counter\<close>

lemma counter_in_range_read:
  "counter_in_range w = (\<exists>n. read_redirectCount w = Num n \<and> 0 \<le> n \<and> n \<le> maxRedirects)"
proof (cases "localStorage w storageKey")
  case None
  then show ?thesis by (simp add: counter_in_range_def read_absent maxRedirects_def)
next
  case (Some s)
  then show ?thesis
    by (cases "read_redirectCount w") (simp_all add: counter_in_range_def)
qed

lemma counter_in_range_absent: "localStorage w storageKey = None \<Longrightarrow> counter_in_range w"
  by (simp add: counter_in_range_def)

lemma counter_in_range_cong:
  "localStorage w' storageKey = localStorage w storageKey \<Longrightarrow>
   counter_in_range w' = counter_in_range w"
  by (simp add: counter_in_range_def read_redirectCount_def getItem_def)

lemma fold_callbacks:
  "navigations (fold (\<lambda>t. run_callback (snd t)) ts w) = navigations w
 \<and> (localStorage (fold (\<lambda>t. run_callback (snd t)) ts w) storageKey = localStorage w storageKey
    \<or> localStorage (fold (\<lambda>t. run_callback (snd t)) ts w) storageKey = None)"
proof (induction ts arbitrary: w)
  case Nil
  then show ?case by simp
next
  case (Cons t ts)
  obtain key where k: "snd t = RemoveItem key" by (cases "snd t")
  let ?w = "run_callback (snd t) w"
  have n: "navigations ?w = navigations w"
    using k by (simp add: run_callback_def removeItem_def)
  have l: "localStorage ?w storageKey = localStorage w storageKey
         \<or> localStorage ?w storageKey = None"
    using k by (simp add: run_callback_def removeItem_def)
  show ?case using Cons.IH [of ?w] n l by auto
qed

lemma elapse_effect:
  shows "navigations (elapse dt w) = navigations w"
    and "localStorage (elapse dt w) storageKey = localStorage w storageKey
       \<or> localStorage (elapse dt w) storageKey = None"
  using fold_callbacks
    [of "sort_key fst (filter (\<lambda>t. fst t \<le> now w + dt) (timers w))"
        "w\<lparr>now := now w + dt, timers := filter (\<lambda>t. \<not> fst t \<le> now w + dt) (timers w)\<rparr>"]
  by (simp_all add: elapse_def fire_due_def)

lemma secureRedirect_in_range:
  assumes "counter_in_range w"
  shows "counter_in_range (secureRedirect cfg g throws w)"
proof -
  obtain n where n: "read_redirectCount w = Num n" "0 \<le> n" "n \<le> maxRedirects"
    using assms counter_in_range_read by blast
  show ?thesis
  proof (cases "n < maxRedirects")
    case False
    then have "\<not> js_lt (read_redirectCount w) (Num maxRedirects)" using n by (simp add: js_lt_def)
    then have "localStorage (secureRedirect cfg g throws w) storageKey = localStorage w storageKey"
      by (simp add: secureRedirect_blocked)
    then show ?thesis using assms counter_in_range_cong [of "secureRedirect cfg g throws w" w] by simp
  next
    case True
    let ?w = "secureRedirect cfg g throws w"
    have st: "localStorage ?w storageKey = Some (js_toString (Num (n + 1)))"
      by (simp add: secureRedirect_allowed [OF n(1) True] performRedirect_frame)
    have "n < 3" using True by (simp add: maxRedirects_def)
    then consider "n = 0" | "n = 1" | "n = 2" using n(2) by linarith
    then have "\<exists>m. read_redirectCount ?w = Num m \<and> 0 \<le> m \<and> m \<le> maxRedirects"
    proof cases
      case 1
      then have "localStorage ?w storageKey = Some ''1''" using st by (simp add: toString_small)
      then show ?thesis by (simp add: read_present parseInt10_small maxRedirects_def)
    next
      case 2
      then have "localStorage ?w storageKey = Some ''2''" using st by (simp add: toString_small)
      then show ?thesis by (simp add: read_present parseInt10_small maxRedirects_def)
    next
      case 3
      then have "localStorage ?w storageKey = Some ''3''" using st by (simp add: toString_small)
      then show ?thesis by (simp add: read_present parseInt10_small maxRedirects_def)
    qed
    then show ?thesis by (simp add: counter_in_range_read)
  qed
qed

lemma step_in_range:
  assumes "counter_in_range w"
  shows "counter_in_range (step cfg g throws e w)"
proof (cases e)
  case PageLoad
  then show ?thesis using secureRedirect_in_range [OF assms] by simp
next
  case (Elapse dt)
  have "counter_in_range (elapse dt w)"
  proof (rule disjE [OF elapse_effect(2) [of dt w]])
    assume "localStorage (elapse dt w) storageKey = localStorage w storageKey"
    then show ?thesis using assms counter_in_range_cong [of "elapse dt w" w] by simp
  next
    assume "localStorage (elapse dt w) storageKey = None"
    then show ?thesis by (rule counter_in_range_absent)
  qed
  then show ?thesis using Elapse by simp
qed

lemma run_in_range:
  "counter_in_range w \<Longrightarrow> counter_in_range (run cfg g throws es w)"
  by (induction es arbitrary: w) (simp_all add: step_in_range)

lemma step_at_max:
  assumes "read_redirectCount w = Num maxRedirects"
  shows "navigations (step cfg g throws e w) = navigations w"
    and "localStorage (step cfg g throws e w) storageKey = localStorage w storageKey
       \<or> localStorage (step cfg g throws e w) storageKey = None"
proof -
  have b: "\<not> js_lt (read_redirectCount w) (Num maxRedirects)"
    using assms by (simp add: js_lt_def)
  show "navigations (step cfg g throws e w) = navigations w"
  proof (cases e)
    case PageLoad
    then show ?thesis using b by (simp add: secureRedirect_blocked)
  next
    case (Elapse dt)
    then show ?thesis by (simp add: elapse_effect(1))
  qed
  show "localStorage (step cfg g throws e w) storageKey = localStorage w storageKey
       \<or> localStorage (step cfg g throws e w) storageKey = None"
  proof (cases e)
    case PageLoad
    then show ?thesis using b by (simp add: secureRedirect_blocked)
  next
    case (Elapse dt)
    then show ?thesis using elapse_effect(2) [of dt w] by simp
  qed
qed

lemma run_at_max:
  "read_redirectCount w = Num maxRedirects \<Longrightarrow>
   (\<forall>es1 es2. es = es1 @ es2 \<longrightarrow> localStorage (run cfg g throws es1 w) storageKey \<noteq> None) \<Longrightarrow>
   navigations (run cfg g throws es w) = navigations w"
proof (induction es arbitrary: w)
  case Nil
  then show ?case by simp
next
  case (Cons e es)
  let ?w = "step cfg g throws e w"
  have "e # es = [e] @ es" by simp
  then have "localStorage (run cfg g throws [e] w) storageKey \<noteq> None"
    using Cons.prems(2) [rule_format, of "[e]" es] by simp
  then have "localStorage ?w storageKey \<noteq> None" by simp
  then have "localStorage ?w storageKey = localStorage w storageKey"
    using step_at_max(2) [OF Cons.prems(1), of cfg g throws e] by auto
  then have r: "read_redirectCount ?w = Num maxRedirects"
    using Cons.prems(1) read_cong [of ?w w] by simp
  have "\<forall>es1 es2. es = es1 @ es2 \<longrightarrow> localStorage (run cfg g throws es1 ?w) storageKey \<noteq> None"
  proof (intro allI impI)
    fix es1 es2
    assume "es = es1 @ es2"
    then have "e # es = (e # es1) @ es2" by simp
    then have "localStorage (run cfg g throws (e # es1) w) storageKey \<noteq> None"
      using Cons.prems(2) [rule_format, of "e # es1" es2] by simp
    then show "localStorage (run cfg g throws es1 ?w) storageKey \<noteq> None" by simp
  qed
  then have "navigations (run cfg g throws es ?w) = navigations ?w"
    by (rule Cons.IH [OF r])
  then show ?case using step_at_max(1) [OF Cons.prems(1), of cfg g throws e] by simp
qed

lemma three_world_blocked:
  "localStorage w storageKey = Some ''3'' \<Longrightarrow>
   secureRedirect cfg g throws w = w\<lparr>console := console w @ [Warn_max_redirects maxRedirects]\<rparr>"
proof -
  assume s: "localStorage w storageKey = Some ''3''"
  have "read_redirectCount w = Num 3" using read_present [OF s] by (simp add: parseInt10_small)
  then have "\<not> js_lt (read_redirectCount w) (Num maxRedirects)"
    by (simp add: js_lt_def maxRedirects_def)
  then show ?thesis by (rule secureRedirect_blocked)
qed

text \<open>
  C3. From a state in which the counter, if present, reads as a number in
  \<open>[0, maxRedirects]\<close>, every schedule of page loads and waits (with the timers that fire
  in them) leads to such a state again. And if the counter reads \<open>maxRedirects\<close>, a
  schedule during which the entry is never absent adds no navigation: no further
  redirect happens until the entry is cleared.
\<close>

theorem counter_invariant:
  assumes "counter_in_range w"
  shows "counter_in_range (run cfg g throws es w)
       \<and> (read_redirectCount w = Num maxRedirects
          \<and> (\<forall>es1 es2. es = es1 @ es2 \<longrightarrow> localStorage (run cfg g throws es1 w) storageKey \<noteq> None)
          \<longrightarrow> navigations (run cfg g throws es w) = navigations w)"
proof (intro conjI impI)
  show "counter_in_range (run cfg g throws es w)" by (rule run_in_range [OF assms])
next
  assume a: "read_redirectCount w = Num maxRedirects
          \<and> (\<forall>es1 es2. es = es1 @ es2 \<longrightarrow> localStorage (run cfg g throws es1 w) storageKey \<noteq> None)"
  show "navigations (run cfg g throws es w) = navigations w"
    by (rule run_at_max [OF conjunct1 [OF a] conjunct2 [OF a]])
qed

theorem counter_invariant_witness:
  "counter_in_range three_world
 \<and> read_redirectCount three_world = Num maxRedirects
 \<and> counter_in_range
       (run domainConfig half_draws never_throws [PageLoad, Elapse 5, PageLoad] three_world)
 \<and> navigations
       (run domainConfig half_draws never_throws [PageLoad, Elapse 5, PageLoad] three_world)
     = navigations three_world"
proof -
  have s: "localStorage three_world storageKey = Some ''3''"
    by (simp add: three_world_def fresh_world_def)
  have t: "timers three_world = []" by (simp add: three_world_def fresh_world_def)
  have r: "read_redirectCount three_world = Num maxRedirects"
    using read_present [OF s] by (simp add: parseInt10_small maxRedirects_def)
  have c: "counter_in_range three_world"
    using r by (simp add: counter_in_range_read maxRedirects_def)
  have p: "\<forall>es1 es2. [PageLoad, Elapse 5, PageLoad] = es1 @ es2 \<longrightarrow>
       localStorage (run domainConfig half_draws never_throws es1 three_world) storageKey \<noteq> None"
    using s t
    by (auto simp add: Cons_eq_append_conv three_world_blocked elapse_def fire_due_def)
  show ?thesis
    using c r p counter_invariant
      [OF c, of domainConfig half_draws never_throws "[PageLoad, Elapse 5, PageLoad]"]
    by blast
qed

end
